theory Spec2Isabelle
  imports Main
begin

section \<open>Rectangle\<close>

text \<open>
  \<^verbatim>\<open>function Rectangle(width, height) { this.width = width; this.height = height; }\<close>
  \<^verbatim>\<open>Rectangle.prototype.getArea = function() { return this.width * this.height; }\<close>

  The two fields hold whatever numbers the constructor receives. The model is polymorphic
  in the number type: \<open>getArea\<close> only multiplies, so nothing below depends on which
  arithmetic the product is taken in.
\<close>

record 'a rectangle =
  width :: 'a
  height :: 'a

definition Rectangle :: "'a \<Rightarrow> 'a \<Rightarrow> 'a rectangle" where
  "Rectangle w h = \<lparr>width = w, height = h\<rparr>"

definition getArea :: "'a::times rectangle \<Rightarrow> 'a" where
  "getArea this = width this * height this"

section \<open>The selector builder\<close>

subsection \<open>Errors\<close>

text \<open>
  Every failure of the builder is \<^verbatim>\<open>throw new Error(message)\<close> with one of two
  messages. The specification calls the first kind DuplicateKindError and the second
  OrderError.
\<close>

datatype error = Error string

definition DuplicateKindError :: error where
  "DuplicateKindError =
     Error ''Element, id and pseudo-element should not occur more then one time inside the selector''"

definition OrderError :: error where
  "OrderError =
     Error ''Selector parts should be arranged in the following order: element, id, class, attribute, pseudo-class, pseudo-element''"

subsection \<open>The state of a Selector object\<close>

text \<open>
  \<^verbatim>\<open>this.cache = { element: '', id: '', className: [], attribute: [], pseudoClass: [], pseudoElement: '' }\<close>

  Fragment values are strings, as in every documented use of the builder. A string is
  truthy in JavaScript exactly when it is not empty; an array's \<^verbatim>\<open>length\<close> is truthy
  exactly when the array is not empty.
\<close>

record cache =
  cache_element :: string
  cache_id :: string
  cache_className :: "string list"
  cache_attribute :: "string list"
  cache_pseudoClass :: "string list"
  cache_pseudoElement :: string

definition truthy :: "string \<Rightarrow> bool" where
  "truthy v = (v \<noteq> [])"

definition truthy_length :: "'a list \<Rightarrow> bool" where
  "truthy_length xs = (length xs \<noteq> 0)"

definition initial_cache :: cache where
  "initial_cache =
     \<lparr>cache_element = [], cache_id = [], cache_className = [], cache_attribute = [],
      cache_pseudoClass = [], cache_pseudoElement = []\<rparr>"

text \<open>
  The constructor \<^verbatim>\<open>Selector(type, value)\<close>: a slot that holds an array receives
  \<^verbatim>\<open>[value]\<close>, any other slot receives \<^verbatim>\<open>value\<close>. A \<^verbatim>\<open>type\<close> that is none of the six
  keys would add a key that no method reads, so the six slots stay as initialised.
\<close>

definition Selector :: "string \<Rightarrow> string \<Rightarrow> cache" where
  "Selector type v =
     (if type = ''element'' then initial_cache\<lparr>cache_element := v\<rparr>
      else if type = ''id'' then initial_cache\<lparr>cache_id := v\<rparr>
      else if type = ''className'' then initial_cache\<lparr>cache_className := [v]\<rparr>
      else if type = ''attribute'' then initial_cache\<lparr>cache_attribute := [v]\<rparr>
      else if type = ''pseudoClass'' then initial_cache\<lparr>cache_pseudoClass := [v]\<rparr>
      else if type = ''pseudoElement'' then initial_cache\<lparr>cache_pseudoElement := v\<rparr>
      else initial_cache)"

subsection \<open>Methods of a Selector\<close>

text \<open>
  A method call takes the receiver's state and yields the outcome of the call (\<open>Inl\<close> the
  thrown error, \<open>Inr\<close> the returned value) together with the receiver's state after the
  call. The fragment methods return \<^verbatim>\<open>this\<close>, which is the state component itself, so
  their returned value is \<open>()\<close>.
\<close>

type_synonym 'a outcome = "error + 'a"

text \<open>\<^verbatim>\<open>xs.join('')\<close> concatenates the strings of \<open>xs\<close> with nothing between them.\<close>

definition join_empty :: "string list \<Rightarrow> string" where
  "join_empty xs = concat xs"

definition Selector_stringify :: "cache \<Rightarrow> string outcome \<times> cache" where
  "Selector_stringify this =
     (let result = cache_element this;
          result = (if truthy (cache_id this) then result @ ''#'' @ cache_id this else result);
          result = result @ join_empty (map (\<lambda>className. ''.'' @ className) (cache_className this));
          result = result @ join_empty (map (\<lambda>attribute. ''['' @ attribute @ '']'') (cache_attribute this));
          result = result @ join_empty (map (\<lambda>pseudoClass. '':'' @ pseudoClass) (cache_pseudoClass this));
          result = (if truthy (cache_pseudoElement this)
                    then result @ ''::'' @ cache_pseudoElement this else result)
      in (Inr result, this))"

text \<open>\<^verbatim>\<open>Selector.prototype.element\<close> takes no parameter and always throws.\<close>

definition Selector_element :: "string \<Rightarrow> cache \<Rightarrow> unit outcome \<times> cache" where
  "Selector_element v this =
     (if truthy (cache_element this) then (Inl DuplicateKindError, this)
      else (Inl OrderError, this))"

definition Selector_id :: "string \<Rightarrow> cache \<Rightarrow> unit outcome \<times> cache" where
  "Selector_id v this =
     (if truthy (cache_id this) then (Inl DuplicateKindError, this)
      else if truthy_length (cache_className this) \<or> truthy_length (cache_attribute this)
              \<or> truthy_length (cache_pseudoClass this) \<or> truthy (cache_pseudoElement this)
      then (Inl OrderError, this)
      else (Inr (), this\<lparr>cache_id := v\<rparr>))"

definition Selector_class :: "string \<Rightarrow> cache \<Rightarrow> unit outcome \<times> cache" where
  "Selector_class v this =
     (if truthy_length (cache_attribute this) \<or> truthy_length (cache_pseudoClass this)
         \<or> truthy (cache_pseudoElement this)
      then (Inl OrderError, this)
      else (Inr (), this\<lparr>cache_className := cache_className this @ [v]\<rparr>))"

definition Selector_attr :: "string \<Rightarrow> cache \<Rightarrow> unit outcome \<times> cache" where
  "Selector_attr v this =
     (if truthy_length (cache_pseudoClass this) \<or> truthy (cache_pseudoElement this)
      then (Inl OrderError, this)
      else (Inr (), this\<lparr>cache_attribute := cache_attribute this @ [v]\<rparr>))"

definition Selector_pseudoClass :: "string \<Rightarrow> cache \<Rightarrow> unit outcome \<times> cache" where
  "Selector_pseudoClass v this =
     (if truthy (cache_pseudoElement this) then (Inl OrderError, this)
      else (Inr (), this\<lparr>cache_pseudoClass := cache_pseudoClass this @ [v]\<rparr>))"

definition Selector_pseudoElement :: "string \<Rightarrow> cache \<Rightarrow> unit outcome \<times> cache" where
  "Selector_pseudoElement v this =
     (if truthy (cache_pseudoElement this) then (Inl DuplicateKindError, this)
      else (Inr (), this\<lparr>cache_pseudoElement := v\<rparr>))"

subsection \<open>Selector nodes and CombineSelector\<close>

text \<open>
  A node is a Selector or a CombineSelector, whose three fields are stored as given.
  \<^verbatim>\<open>CombineSelector.prototype.stringify\<close> evaluates the template
  \<^verbatim>\<open>`${this.selector1.stringify()} ${this.combinator} ${this.selector2.stringify()}`\<close>
  from left to right; an error thrown by a child's \<^verbatim>\<open>stringify\<close> would leave through
  the parent's call.
\<close>

datatype node =
  SelectorNode cache
| CombineSelector (selector1: node) (combinator: string) (selector2: node)

fun stringify :: "node \<Rightarrow> string outcome \<times> node" where
  "stringify (SelectorNode c) =
     (case Selector_stringify c of (r, c') \<Rightarrow> (r, SelectorNode c'))"
| "stringify (CombineSelector s1 c s2) =
     (case stringify s1 of
        (Inl e, s1') \<Rightarrow> (Inl e, CombineSelector s1' c s2)
      | (Inr a, s1') \<Rightarrow>
          (case stringify s2 of
             (Inl e, s2') \<Rightarrow> (Inl e, CombineSelector s1' c s2')
           | (Inr b, s2') \<Rightarrow> (Inr (a @ '' '' @ c @ '' '' @ b), CombineSelector s1' c s2')))"

subsection \<open>The facade cssSelectorBuilder\<close>

definition builder_element :: "string \<Rightarrow> cache" where
  "builder_element v = Selector ''element'' v"

definition builder_id :: "string \<Rightarrow> cache" where
  "builder_id v = Selector ''id'' v"

definition builder_class :: "string \<Rightarrow> cache" where
  "builder_class v = Selector ''className'' v"

definition builder_attr :: "string \<Rightarrow> cache" where
  "builder_attr v = Selector ''attribute'' v"

definition builder_pseudoClass :: "string \<Rightarrow> cache" where
  "builder_pseudoClass v = Selector ''pseudoClass'' v"

definition builder_pseudoElement :: "string \<Rightarrow> cache" where
  "builder_pseudoElement v = Selector ''pseudoElement'' v"

definition builder_combine :: "node \<Rightarrow> string \<Rightarrow> node \<Rightarrow> node" where
  "builder_combine s1 c s2 = CombineSelector s1 c s2"

subsection \<open>Repeated calls of stringify\<close>

text \<open>
  \<open>stringify_times n x\<close> calls \<open>stringify\<close> on the same node \<open>n\<close> times in a row, each
  call on the state the previous call left, and collects the outcomes in call order.
\<close>

fun stringify_times :: "nat \<Rightarrow> node \<Rightarrow> string outcome list \<times> node" where
  "stringify_times 0 x = ([], x)"
| "stringify_times (Suc n) x =
     (case stringify x of (r, x') \<Rightarrow>
        (case stringify_times n x' of (rs, x'') \<Rightarrow> (r # rs, x'')))"

subsection \<open>Fragment categories, method dispatch and call chains\<close>

text \<open>
  The six fragment categories in their fixed order
  element < id < class < attribute < pseudo-class < pseudo-element.
\<close>

datatype category = Element | Id | Class | Attribute | PseudoClass | PseudoElement

fun category_index :: "category \<Rightarrow> nat" where
  "category_index Element = 0"
| "category_index Id = 1"
| "category_index Class = 2"
| "category_index Attribute = 3"
| "category_index PseudoClass = 4"
| "category_index PseudoElement = 5"

text \<open>\<open>create k v\<close> is the facade function of category \<open>k\<close>, \<open>call k v\<close> the method.\<close>

fun create :: "category \<Rightarrow> string \<Rightarrow> cache" where
  "create Element v = builder_element v"
| "create Id v = builder_id v"
| "create Class v = builder_class v"
| "create Attribute v = builder_attr v"
| "create PseudoClass v = builder_pseudoClass v"
| "create PseudoElement v = builder_pseudoElement v"

fun call :: "category \<Rightarrow> string \<Rightarrow> cache \<Rightarrow> unit outcome \<times> cache" where
  "call Element v this = Selector_element v this"
| "call Id v this = Selector_id v this"
| "call Class v this = Selector_class v this"
| "call Attribute v this = Selector_attr v this"
| "call PseudoClass v this = Selector_pseudoClass v this"
| "call PseudoElement v this = Selector_pseudoElement v this"

text \<open>
  A fluent chain \<^verbatim>\<open>sel.m1(v1).m2(v2)...\<close>: each method runs on the state the previous one
  left; the first thrown error ends the chain and is its outcome.
\<close>

fun call_chain :: "(category \<times> string) list \<Rightarrow> cache \<Rightarrow> unit outcome \<times> cache" where
  "call_chain [] this = (Inr (), this)"
| "call_chain ((k, v) # rest) this =
     (case call k v this of
        (Inl e, this') \<Rightarrow> (Inl e, this')
      | (Inr u, this') \<Rightarrow> call_chain rest this')"

text \<open>
  \<open>build\<close> runs a whole construction: the facade function for the first fragment, the
  methods for the others. Nothing is built from no fragment at all.
\<close>

fun build :: "(category \<times> string) list \<Rightarrow> (unit outcome \<times> cache) option" where
  "build [] = None"
| "build ((k, v) # rest) = Some (call_chain rest (create k v))"

text \<open>
  A category is present in a state when its slot holds something: a non-empty string in
  a singleton slot, at least one entry in a sequence slot. These are the tests the
  methods themselves make.
\<close>

fun present :: "category \<Rightarrow> cache \<Rightarrow> bool" where
  "present Element this = truthy (cache_element this)"
| "present Id this = truthy (cache_id this)"
| "present Class this = truthy_length (cache_className this)"
| "present Attribute this = truthy_length (cache_attribute this)"
| "present PseudoClass this = truthy_length (cache_pseudoClass this)"
| "present PseudoElement this = truthy (cache_pseudoElement this)"

fun singleton_slot :: "category \<Rightarrow> bool" where
  "singleton_slot Element = True"
| "singleton_slot Id = True"
| "singleton_slot PseudoElement = True"
| "singleton_slot k = False"

text \<open>The state after a fragment of category \<open>k\<close> with value \<open>v\<close> has been stored.\<close>

fun store :: "category \<Rightarrow> string \<Rightarrow> cache \<Rightarrow> cache" where
  "store Element v this = this\<lparr>cache_element := v\<rparr>"
| "store Id v this = this\<lparr>cache_id := v\<rparr>"
| "store Class v this = this\<lparr>cache_className := cache_className this @ [v]\<rparr>"
| "store Attribute v this = this\<lparr>cache_attribute := cache_attribute this @ [v]\<rparr>"
| "store PseudoClass v this = this\<lparr>cache_pseudoClass := cache_pseudoClass this @ [v]\<rparr>"
| "store PseudoElement v this = this\<lparr>cache_pseudoElement := v\<rparr>"

subsection \<open>Fragment sequences and the concatenation they stand for\<close>

text \<open>The values of the fragments of category \<open>k\<close>, in the order of the sequence.\<close>

definition values_of :: "category \<Rightarrow> (category \<times> string) list \<Rightarrow> string list" where
  "values_of k fs = map snd (filter (\<lambda>f. fst f = k) fs)"

text \<open>
  A valid sequence of fragment calls: the category indices never decrease, and each of
  the singleton categories element, id and pseudo-element occurs at most once.
\<close>

definition valid_order :: "(category \<times> string) list \<Rightarrow> bool" where
  "valid_order fs =
     (sorted (map (\<lambda>f. category_index (fst f)) fs) \<and>
      length (values_of Element fs) \<le> 1 \<and>
      length (values_of Id fs) \<le> 1 \<and>
      length (values_of PseudoElement fs) \<le> 1)"

text \<open>
  The text the specification asks for, read off the fragment sequence alone: the element
  value, then \<open>#\<close> and the id, then \<open>.\<close> and each class name, then each attribute in
  brackets, then \<open>:\<close> and each pseudo-class, then \<open>::\<close> and the pseudo-element. A
  singleton slot counts as set when its value is a non-empty string, so \<open>prefixed\<close>
  writes nothing for an empty value.
\<close>

definition prefixed :: "string \<Rightarrow> string \<Rightarrow> string" where
  "prefixed p v = (if v = [] then [] else p @ v)"

definition concatenation :: "(category \<times> string) list \<Rightarrow> string" where
  "concatenation fs =
     concat (values_of Element fs) @
     concat (map (prefixed ''#'') (values_of Id fs)) @
     concat (map (\<lambda>v. ''.'' @ v) (values_of Class fs)) @
     concat (map (\<lambda>v. ''['' @ v @ '']'') (values_of Attribute fs)) @
     concat (map (\<lambda>v. '':'' @ v) (values_of PseudoClass fs)) @
     concat (map (prefixed ''::'') (values_of PseudoElement fs))"

text \<open>
  The invariant of a construction: the state holds exactly what the fragments added so
  far say, slot by slot.
\<close>

definition tracks :: "(category \<times> string) list \<Rightarrow> cache \<Rightarrow> bool" where
  "tracks fs this =
     (cache_element this = concat (values_of Element fs) \<and>
      prefixed ''#'' (cache_id this) = concat (map (prefixed ''#'') (values_of Id fs)) \<and>
      cache_className this = values_of Class fs \<and>
      cache_attribute this = values_of Attribute fs \<and>
      cache_pseudoClass this = values_of PseudoClass fs \<and>
      prefixed ''::'' (cache_pseudoElement this)
        = concat (map (prefixed ''::'') (values_of PseudoElement fs)))"

section \<open>Properties\<close>

subsection \<open>Rectangle\<close>

text \<open>
  C10. For every pair of numbers \<open>w\<close> and \<open>h\<close>, a Rectangle constructed with \<open>(w, h)\<close>
  stores \<open>width = w\<close> and \<open>height = h\<close> unchanged, and its \<open>getArea()\<close> returns exactly
  \<open>w * h\<close>.
\<close>

theorem Rectangle_fields_and_area:
  "width (Rectangle w h) = w \<and> height (Rectangle w h) = h \<and> getArea (Rectangle w h) = w * h"
  by (simp add: Rectangle_def getArea_def)

subsection \<open>stringify\<close>

lemma Selector_stringify_state: "snd (Selector_stringify c) = c"
  by (simp add: Selector_stringify_def Let_def)

lemma Selector_stringify_returns: "\<exists>str. fst (Selector_stringify c) = Inr str"
  by (simp add: Selector_stringify_def Let_def)

lemma stringify_returns: "\<exists>str. fst (stringify x) = Inr str"
proof (induction x)
  case (SelectorNode c)
  obtain str where "fst (Selector_stringify c) = Inr str"
    using Selector_stringify_returns by blast
  then show ?case by (simp add: case_prod_unfold)
next
  case (CombineSelector s1 c s2)
  then obtain a b where "fst (stringify s1) = Inr a" "fst (stringify s2) = Inr b"
    by blast
  then show ?case by (simp add: case_prod_unfold)
qed

lemma stringify_state: "snd (stringify x) = x"
proof (induction x)
  case (SelectorNode c)
  then show ?case by (simp add: case_prod_unfold Selector_stringify_state)
next
  case (CombineSelector s1 c s2)
  obtain a b where "fst (stringify s1) = Inr a" "fst (stringify s2) = Inr b"
    using stringify_returns by blast
  with CombineSelector show ?case by (simp add: case_prod_unfold)
qed

text \<open>
  C2. For every pair of selector nodes \<open>left\<close> and \<open>right\<close> (simple or combined, nested
  to any depth) and every combinator string \<open>c\<close>, \<open>combine(left, c, right).stringify()\<close>
  equals \<open>left.stringify() + ' ' + c + ' ' + right.stringify()\<close>: exactly one space on
  each side of the combinator whatever it is, so that the descendant combinator \<open>' '\<close>
  yields three consecutive spaces.
\<close>

theorem combine_stringify:
  "\<exists>a b. fst (stringify left) = Inr a \<and> fst (stringify right) = Inr b \<and>
     fst (stringify (builder_combine left c right)) = Inr (a @ '' '' @ c @ '' '' @ b) \<and>
     fst (stringify (builder_combine left '' '' right)) = Inr (a @ ''   '' @ b)"
proof -
  obtain a b where ab: "fst (stringify left) = Inr a" "fst (stringify right) = Inr b"
    using stringify_returns by blast
  then show ?thesis
    by (simp add: builder_combine_def case_prod_unfold)
qed

text \<open>
  C7. \<open>stringify()\<close> never fails on any constructed selector node, simple or combined,
  and \<open>combine(selector1, combinator, selector2)\<close> never fails: it validates nothing and
  stores its three arguments as they are, any string being accepted as combinator.
\<close>

theorem stringify_and_combine_never_fail:
  "(\<exists>str. fst (stringify x) = Inr str) \<and>
   (\<exists>str. fst (stringify (builder_combine s1 c s2)) = Inr str) \<and>
   selector1 (builder_combine s1 c s2) = s1 \<and>
   combinator (builder_combine s1 c s2) = c \<and>
   selector2 (builder_combine s1 c s2) = s2"
  using stringify_returns [of x] stringify_returns [of "builder_combine s1 c s2"]
  by (simp add: builder_combine_def)

text \<open>
  C8. For every selector node, \<open>stringify()\<close> is side-effect-free and idempotent: called
  any number \<open>n\<close> of times in a row it returns the same string each time, and it leaves
  the node's state unchanged.
\<close>

theorem stringify_idempotent:
  "snd (stringify x) = x \<and> stringify_times n x = (replicate n (fst (stringify x)), x)"
proof
  show "snd (stringify x) = x" by (rule stringify_state)
  have step: "stringify x = (fst (stringify x), x)"
    by (simp add: prod_eq_iff stringify_state)
  show "stringify_times n x = (replicate n (fst (stringify x)), x)"
  proof (induction n)
    case 0
    show ?case by simp
  next
    case (Suc n)
    have "stringify_times (Suc n) x =
        (case (fst (stringify x), x) of (r, x') \<Rightarrow>
           (case stringify_times n x' of (rs, x'') \<Rightarrow> (r # rs, x'')))"
      using step by (metis stringify_times.simps(2))
    then show ?case by (simp add: Suc)
  qed
qed

subsection \<open>Failed calls\<close>

lemma errors_distinct: "DuplicateKindError \<noteq> OrderError"
  by (simp add: DuplicateKindError_def OrderError_def)

lemmas method_defs = Selector_element_def Selector_id_def Selector_class_def Selector_attr_def
  Selector_pseudoClass_def Selector_pseudoElement_def

lemmas builder_defs = builder_element_def builder_id_def builder_class_def builder_attr_def
  builder_pseudoClass_def builder_pseudoElement_def Selector_def initial_cache_def

lemmas truthy_defs = truthy_def truthy_length_def

lemma call_failure_state: "fst (call k v this) = Inl e \<Longrightarrow> snd (call k v this) = this"
  by (cases k) (auto simp: method_defs split: if_splits)

lemma chain_failure:
  "fst (call_chain fs this) = Inl e \<Longrightarrow>
   \<exists>pre k v post. fs = pre @ (k, v) # post \<and>
      call_chain pre this = (Inr (), snd (call_chain fs this)) \<and>
      call k v (snd (call_chain fs this)) = (Inl e, snd (call_chain fs this))"
proof (induction fs arbitrary: this)
  case Nil
  then show ?case by simp
next
  case (Cons f rest)
  obtain k v where f: "f = (k, v)" by (cases f)
  obtain r this' where c: "call k v this = (r, this')" by (cases "call k v this")
  show ?case
  proof (cases r)
    case (Inl e')
    with Cons.prems f c have e: "e' = e" and st: "snd (call_chain (f # rest) this) = this'"
      by simp_all
    from c Inl have "this' = this" using call_failure_state [of k v this e'] by simp
    with f c Inl e st have "f # rest = [] @ (k, v) # rest \<and>
      call_chain [] this = (Inr (), snd (call_chain (f # rest) this)) \<and>
      call k v (snd (call_chain (f # rest) this)) = (Inl e, snd (call_chain (f # rest) this))"
      by simp
    then show ?thesis by blast
  next
    case (Inr u)
    with f c have eq: "call_chain (f # rest) this = call_chain rest this'" by simp
    with Cons.prems have "fst (call_chain rest this') = Inl e" by simp
    from Cons.IH [OF this] obtain pre k' v' post where
      p: "rest = pre @ (k', v') # post"
         "call_chain pre this' = (Inr (), snd (call_chain rest this'))"
         "call k' v' (snd (call_chain rest this')) = (Inl e, snd (call_chain rest this'))"
      by blast
    have "f # rest = (f # pre) @ (k', v') # post \<and>
      call_chain (f # pre) this = (Inr (), snd (call_chain (f # rest) this)) \<and>
      call k' v' (snd (call_chain (f # rest) this)) = (Inl e, snd (call_chain (f # rest) this))"
      using p f c Inr eq by simp
    then show ?thesis by blast
  qed
qed

text \<open>
  C6. Every fragment call that raises an error (DuplicateKindError or OrderError) leaves
  the selector's accumulated state exactly as it was before the call, and the error
  reaches the immediate caller: in a chain of calls the first error ends the chain, the
  chain's outcome is that error, and the state is the one the calls before it had built.
\<close>

theorem failed_call_keeps_state:
  "(fst (call k v this) = Inl e \<longrightarrow> snd (call k v this) = this) \<and>
   (fst (call_chain fs this) = Inl e \<longrightarrow>
      (\<exists>pre k v post. fs = pre @ (k, v) # post \<and>
         call_chain pre this = (Inr (), snd (call_chain fs this)) \<and>
         call k v (snd (call_chain fs this)) = (Inl e, snd (call_chain fs this))))"
  using call_failure_state chain_failure by blast

theorem failed_call_keeps_state_witness:
  "fst (call Id ''b'' (builder_class ''c'')) = Inl OrderError \<and>
   snd (call Id ''b'' (builder_class ''c'')) = builder_class ''c'' \<and>
   fst (call_chain [(Attribute, ''x''), (Id, ''b''), (Class, ''d'')] (builder_class ''c''))
     = Inl OrderError \<and>
   (\<exists>pre k v post. [(Attribute, ''x''), (Id, ''b''), (Class, ''d'')] = pre @ (k, v) # post \<and>
      call_chain pre (builder_class ''c'')
        = (Inr (), snd (call_chain [(Attribute, ''x''), (Id, ''b''), (Class, ''d'')]
             (builder_class ''c''))) \<and>
      call k v (snd (call_chain [(Attribute, ''x''), (Id, ''b''), (Class, ''d'')]
             (builder_class ''c'')))
        = (Inl OrderError, snd (call_chain [(Attribute, ''x''), (Id, ''b''), (Class, ''d'')]
             (builder_class ''c''))))"
proof -
  let ?fs = "[(Attribute, ''x''), (Id, ''b''), (Class, ''d'')]"
  have a: "fst (call Id ''b'' (builder_class ''c'')) = Inl OrderError"
    by (simp add: method_defs builder_defs truthy_defs)
  have b: "fst (call_chain ?fs (builder_class ''c'')) = Inl OrderError"
    by (simp add: method_defs builder_defs truthy_defs)
  from a failed_call_keeps_state [where k = Id and v = "''b''" and this = "builder_class ''c''"
      and e = OrderError]
  have "snd (call Id ''b'' (builder_class ''c'')) = builder_class ''c''" by blast
  moreover from b failed_call_keeps_state [where fs = ?fs and this = "builder_class ''c''"
      and e = OrderError]
  have "\<exists>pre k v post. ?fs = pre @ (k, v) # post \<and>
      call_chain pre (builder_class ''c'') = (Inr (), snd (call_chain ?fs (builder_class ''c''))) \<and>
      call k v (snd (call_chain ?fs (builder_class ''c'')))
        = (Inl OrderError, snd (call_chain ?fs (builder_class ''c'')))"
    by blast
  ultimately show ?thesis using a b by blast
qed

subsection \<open>Singleton slots\<close>

text \<open>
  C4 as stated does not hold. It says that a call of \<open>id\<close> on a selector whose id slot
  was set, or of \<open>pseudoElement\<close> on one whose pseudo-element slot was set, raises
  DuplicateKindError whatever the values are. When the stored value is the empty string
  the guard \<^verbatim>\<open>if (this.cache.id)\<close> does not fire: \<open>id('').id('b')\<close> and
  \<open>pseudoElement('').pseudoElement('x')\<close> both return the selector, with the new value
  in the slot.
\<close>

theorem duplicate_id_pseudoElement_counterexample:
  "call_chain [(Id, ''b'')] (builder_id []) = (Inr (), builder_id ''b'') \<and>
   call_chain [(PseudoElement, ''x'')] (builder_pseudoElement [])
     = (Inr (), builder_pseudoElement ''x'')"
  by (simp add: method_defs builder_defs truthy_defs)

text \<open>
  C4, amended. For every selector and every value, calling \<open>id\<close> when the id slot holds
  a non-empty value, or \<open>pseudoElement\<close> when the pseudo-element slot holds a non-empty
  value, raises DuplicateKindError and changes nothing, whatever other fragments have
  been added and whatever the new value is; in particular \<open>id('a').id('b')\<close> raises
  DuplicateKindError.
\<close>

theorem duplicate_id_pseudoElement:
  "(cache_id this \<noteq> [] \<longrightarrow> Selector_id v this = (Inl DuplicateKindError, this)) \<and>
   (cache_pseudoElement this \<noteq> [] \<longrightarrow>
      Selector_pseudoElement v this = (Inl DuplicateKindError, this)) \<and>
   call_chain [(Id, ''b'')] (builder_id ''a'') = (Inl DuplicateKindError, builder_id ''a'')"
  by (simp add: Selector_id_def Selector_pseudoElement_def truthy_def builder_defs)

theorem duplicate_id_pseudoElement_witness:
  "cache_id (snd (call_chain [(Class, ''c'')] (builder_id ''a''))) \<noteq> [] \<and>
   Selector_id ''b'' (snd (call_chain [(Class, ''c'')] (builder_id ''a'')))
     = (Inl DuplicateKindError, snd (call_chain [(Class, ''c'')] (builder_id ''a''))) \<and>
   cache_pseudoElement (builder_pseudoElement ''after'') \<noteq> [] \<and>
   Selector_pseudoElement ''before'' (builder_pseudoElement ''after'')
     = (Inl DuplicateKindError, builder_pseudoElement ''after'')"
proof -
  have a: "cache_id (snd (call_chain [(Class, ''c'')] (builder_id ''a''))) \<noteq> []"
    by (simp add: method_defs builder_defs truthy_defs)
  have b: "cache_pseudoElement (builder_pseudoElement ''after'') \<noteq> []"
    by (simp add: builder_defs)
  from a duplicate_id_pseudoElement [of "snd (call_chain [(Class, ''c'')] (builder_id ''a''))" "''b''"]
  have "Selector_id ''b'' (snd (call_chain [(Class, ''c'')] (builder_id ''a'')))
     = (Inl DuplicateKindError, snd (call_chain [(Class, ''c'')] (builder_id ''a'')))"
    by blast
  moreover from b duplicate_id_pseudoElement [of "builder_pseudoElement ''after''" "''before''"]
  have "Selector_pseudoElement ''before'' (builder_pseudoElement ''after'')
     = (Inl DuplicateKindError, builder_pseudoElement ''after'')"
    by blast
  ultimately show ?thesis using a b by blast
qed

text \<open>
  C9 as stated does not hold. It says that after a singleton slot was filled with the
  empty string a later call to the same slot overwrites it (or, for \<open>element\<close>, raises
  OrderError). In \<open>id('').class('c').id('x')\<close> the last call finds the id slot empty
  and a class present, raises OrderError and overwrites nothing.
\<close>

theorem empty_string_slot_not_occupied_counterexample:
  "call_chain [(Class, ''c''), (Id, ''x'')] (builder_id [])
     = (Inl OrderError,
        \<lparr>cache_element = [], cache_id = [], cache_className = [''c''], cache_attribute = [],
         cache_pseudoClass = [], cache_pseudoElement = []\<rparr>)"
  by (simp add: method_defs builder_defs truthy_defs)

text \<open>
  C9, amended. Whether a singleton slot is occupied is decided by the truthiness of the
  stored value, not by whether a call has occurred. On a selector whose slot holds the
  empty string (as after the \<open>id('')\<close> factory), a call to the same slot never raises
  DuplicateKindError: \<open>pseudoElement\<close> overwrites the slot; \<open>id\<close> overwrites the slot
  when no class, attribute, pseudo-class or pseudo-element is present and raises
  OrderError, changing nothing, when one is; \<open>element\<close> raises OrderError.
\<close>

theorem empty_string_slot_not_occupied:
  "(cache_id this = [] \<longrightarrow>
      Selector_id v this =
        (if present Class this \<or> present Attribute this \<or> present PseudoClass this
            \<or> present PseudoElement this
         then (Inl OrderError, this) else (Inr (), this\<lparr>cache_id := v\<rparr>)) \<and>
      fst (Selector_id v this) \<noteq> Inl DuplicateKindError) \<and>
   (cache_pseudoElement this = [] \<longrightarrow>
      Selector_pseudoElement v this = (Inr (), this\<lparr>cache_pseudoElement := v\<rparr>)) \<and>
   (cache_element this = [] \<longrightarrow> Selector_element v this = (Inl OrderError, this)) \<and>
   Selector_id v (builder_id []) = (Inr (), builder_id v) \<and>
   Selector_pseudoElement v (builder_pseudoElement []) = (Inr (), builder_pseudoElement v) \<and>
   Selector_element v (builder_element []) = (Inl OrderError, builder_element [])"
  by (simp add: method_defs builder_defs truthy_defs errors_distinct [symmetric])

theorem empty_string_slot_not_occupied_witness:
  "cache_id (snd (call_chain [(Id, [])] (builder_element ''a''))) = [] \<and>
   Selector_id ''x'' (snd (call_chain [(Id, [])] (builder_element ''a'')))
     = (Inr (), \<lparr>cache_element = ''a'', cache_id = ''x'', cache_className = [],
          cache_attribute = [], cache_pseudoClass = [], cache_pseudoElement = []\<rparr>) \<and>
   cache_id (builder_class ''c'') = [] \<and>
   Selector_id ''x'' (builder_class ''c'') = (Inl OrderError, builder_class ''c'') \<and>
   cache_pseudoElement (builder_class ''c'') = [] \<and>
   Selector_pseudoElement ''after'' (builder_class ''c'')
     = (Inr (), (builder_class ''c'')\<lparr>cache_pseudoElement := ''after''\<rparr>) \<and>
   cache_element (builder_element []) = [] \<and>
   Selector_element ''div'' (builder_element []) = (Inl OrderError, builder_element [])"
proof -
  let ?s = "snd (call_chain [(Id, [])] (builder_element ''a''))"
  have s: "?s = \<lparr>cache_element = ''a'', cache_id = [], cache_className = [],
          cache_attribute = [], cache_pseudoClass = [], cache_pseudoElement = []\<rparr>"
    by (simp add: method_defs builder_defs truthy_defs)
  have a: "cache_id ?s = []"
    and a': "\<not> (present Class ?s \<or> present Attribute ?s \<or> present PseudoClass ?s
                \<or> present PseudoElement ?s)"
    unfolding s by (simp_all add: truthy_defs)
  have b: "cache_id (builder_class ''c'') = []"
    and b': "present Class (builder_class ''c'')"
    and c: "cache_pseudoElement (builder_class ''c'') = []"
    and d: "cache_element (builder_element []) = []"
    by (simp_all add: builder_defs truthy_defs)
  note t = empty_string_slot_not_occupied
  from a a' t [of ?s "''x''"]
  have "Selector_id ''x'' ?s = (Inr (), ?s\<lparr>cache_id := ''x''\<rparr>)" by simp
  then have one: "Selector_id ''x'' ?s
     = (Inr (), \<lparr>cache_element = ''a'', cache_id = ''x'', cache_className = [],
          cache_attribute = [], cache_pseudoClass = [], cache_pseudoElement = []\<rparr>)"
    unfolding s by simp
  from b b' t [of "builder_class ''c''" "''x''"]
  have two: "Selector_id ''x'' (builder_class ''c'') = (Inl OrderError, builder_class ''c'')"
    by simp
  from c t [of "builder_class ''c''" "''after''"]
  have three: "Selector_pseudoElement ''after'' (builder_class ''c'')
     = (Inr (), (builder_class ''c'')\<lparr>cache_pseudoElement := ''after''\<rparr>)" by blast
  from d t [of "builder_element []" "''div''"]
  have four: "Selector_element ''div'' (builder_element []) = (Inl OrderError, builder_element [])"
    by blast
  from a one b two c three d four show ?thesis by blast
qed

subsection \<open>Category order\<close>

lemma call_succeeds:
  assumes "k \<noteq> Element"
    and "\<And>j. present j this \<Longrightarrow> category_index j \<le> category_index k"
    and "\<not> (singleton_slot k \<and> present k this)"
  shows "call k v this = (Inr (), store k v this)"
proof -
  have hi: "\<not> present j this" if "category_index k < category_index j" for j
    using assms(2) [of j] that by auto
  show ?thesis
    using assms(1,3) hi [of Id] hi [of Class] hi [of Attribute] hi [of PseudoClass]
      hi [of PseudoElement]
    by (cases k) (auto simp: method_defs)
qed

lemma call_out_of_order:
  assumes "present k' this" and "category_index k < category_index k'"
  shows "call k v this =
    (Inl (if singleton_slot k \<and> present k this then DuplicateKindError else OrderError), this)"
  using assms by (cases k; cases k') (auto simp: method_defs)

text \<open>
  C3 as stated does not hold. It says that a fragment below the highest category present
  raises OrderError. In \<open>id('a').class('b').id('c')\<close> the last call is of category id,
  below the class already present, and raises DuplicateKindError: \<open>id\<close> and \<open>element\<close>
  test for a duplicate before they test the order. It also says that a call at or above
  every category present, with no duplicate, succeeds; on the selector of \<open>id('')\<close>, where
  nothing is present, \<open>element('x')\<close> raises OrderError, as \<open>element\<close> does whenever it
  does not raise DuplicateKindError.
\<close>

theorem order_violation_counterexample:
  "call_chain [(Class, ''b'')] (builder_id ''a'')
     = (Inr (), \<lparr>cache_element = [], cache_id = ''a'', cache_className = [''b''],
          cache_attribute = [], cache_pseudoClass = [], cache_pseudoElement = []\<rparr>) \<and>
   present Class (snd (call_chain [(Class, ''b'')] (builder_id ''a''))) \<and>
   category_index Id < category_index Class \<and>
   fst (call Id ''c'' (snd (call_chain [(Class, ''b'')] (builder_id ''a'')))) = Inl DuplicateKindError \<and>
   DuplicateKindError \<noteq> OrderError \<and>
   \<not> present Element (builder_id []) \<and> \<not> present Id (builder_id []) \<and>
   \<not> present Class (builder_id []) \<and> \<not> present Attribute (builder_id []) \<and>
   \<not> present PseudoClass (builder_id []) \<and> \<not> present PseudoElement (builder_id []) \<and>
   call Element ''x'' (builder_id []) = (Inl OrderError, builder_id [])"
  by (simp add: method_defs builder_defs truthy_defs errors_distinct)

text \<open>
  C3, amended. Adding a fragment whose category index is strictly lower than that of some
  category whose slot is non-empty always raises an error and changes nothing:
  DuplicateKindError when the fragment is an element or an id and its own slot already
  holds a non-empty value, OrderError in every other case. An \<open>id\<close>, \<open>class\<close>, \<open>attr\<close>,
  \<open>pseudoClass\<close> or \<open>pseudoElement\<close> call whose category index is greater than or
  equal to that of every category whose slot is non-empty, and whose own slot does not
  already hold a non-empty singleton value, succeeds and stores the fragment. The
  \<open>element\<close> method never succeeds.
\<close>

theorem order_violation:
  "(present k' this \<and> category_index k < category_index k' \<longrightarrow>
      call k v this =
        (Inl (if singleton_slot k \<and> present k this then DuplicateKindError else OrderError), this)) \<and>
   (k \<noteq> Element \<and> (\<forall>j. present j this \<longrightarrow> category_index j \<le> category_index k) \<and>
    \<not> (singleton_slot k \<and> present k this) \<longrightarrow>
      call k v this = (Inr (), store k v this)) \<and>
   (\<exists>e. call Element v this = (Inl e, this))"
proof (intro conjI impI)
  assume "present k' this \<and> category_index k < category_index k'"
  then show "call k v this =
        (Inl (if singleton_slot k \<and> present k this then DuplicateKindError else OrderError), this)"
    using call_out_of_order [of k' this k v] by blast
next
  assume "k \<noteq> Element \<and> (\<forall>j. present j this \<longrightarrow> category_index j \<le> category_index k) \<and>
    \<not> (singleton_slot k \<and> present k this)"
  then show "call k v this = (Inr (), store k v this)"
    by (intro call_succeeds) blast+
next
  show "\<exists>e. call Element v this = (Inl e, this)"
    by (simp add: Selector_element_def)
qed

theorem order_violation_witness:
  "present Attribute (builder_attr ''href'') \<and>
   category_index Class < category_index Attribute \<and>
   call Class ''c'' (builder_attr ''href'') = (Inl OrderError, builder_attr ''href'') \<and>
   call Class ''c'' (builder_id ''a'') = (Inr (), store Class ''c'' (builder_id ''a''))"
proof -
  have a: "present Attribute (builder_attr ''href'') \<and>
      category_index Class < category_index Attribute"
    by (simp add: builder_defs truthy_defs)
  have b: "\<forall>j. present j (builder_id ''a'') \<longrightarrow> category_index j \<le> category_index Class"
  proof (intro allI impI)
    fix j assume "present j (builder_id ''a'')"
    then show "category_index j \<le> category_index Class"
      by (cases j) (simp_all add: builder_defs truthy_defs)
  qed
  have c: "Class \<noteq> Element \<and> \<not> (singleton_slot Class \<and> present Class (builder_id ''a''))"
    by simp
  from a order_violation [of Attribute "builder_attr ''href''" Class "''c''"]
  have "call Class ''c'' (builder_attr ''href'') = (Inl OrderError, builder_attr ''href'')"
    by simp
  moreover from b c order_violation [of _ "builder_id ''a''" Class "''c''"]
  have "call Class ''c'' (builder_id ''a'') = (Inr (), store Class ''c'' (builder_id ''a''))"
    by blast
  ultimately show ?thesis using a by blast
qed

text \<open>
  C5 as stated does not hold. It says that \<open>element\<close> raises OrderError whenever another
  slot is non-empty, also when the element slot is set. In
  \<open>element('div').id('main').class('container').class('draggable').element('x')\<close> the
  last call raises DuplicateKindError: the method tests its own slot first.
\<close>

theorem element_rejected_counterexample:
  "call_chain [(Id, ''main''), (Class, ''container''), (Class, ''draggable''), (Element, ''x'')]
         (builder_element ''div'')
     = (Inl DuplicateKindError,
        \<lparr>cache_element = ''div'', cache_id = ''main'',
         cache_className = [''container'', ''draggable''], cache_attribute = [],
         cache_pseudoClass = [], cache_pseudoElement = []\<rparr>) \<and>
   DuplicateKindError \<noteq> OrderError"
  by (simp add: method_defs builder_defs truthy_defs errors_distinct)

text \<open>
  C5, amended. On every selector on which at least one slot other than element is
  non-empty, \<open>element(value)\<close> raises an error and changes nothing: OrderError when the
  element slot is empty, DuplicateKindError when the element slot already holds a
  non-empty value; the latter is what
  \<open>element('div').id('main').class('container').class('draggable').element('x')\<close> raises.
\<close>

theorem element_rejected:
  "present k this \<and> k \<noteq> Element \<longrightarrow>
   Selector_element v this =
     (Inl (if cache_element this \<noteq> [] then DuplicateKindError else OrderError), this)"
  by (simp add: Selector_element_def truthy_def)

theorem element_rejected_witness:
  "present Id (snd (call_chain [(Id, ''main''), (Class, ''container'')] (builder_element ''div''))) \<and>
   Selector_element ''x'' (snd (call_chain [(Id, ''main''), (Class, ''container'')] (builder_element ''div'')))
     = (Inl DuplicateKindError,
        snd (call_chain [(Id, ''main''), (Class, ''container'')] (builder_element ''div''))) \<and>
   present Class (builder_class ''draggable'') \<and>
   Selector_element ''td'' (builder_class ''draggable'')
     = (Inl OrderError, builder_class ''draggable'')"
proof -
  let ?s = "snd (call_chain [(Id, ''main''), (Class, ''container'')] (builder_element ''div''))"
  have a: "present Id ?s \<and> Id \<noteq> Element" and a': "cache_element ?s \<noteq> []"
    by (simp_all add: method_defs builder_defs truthy_defs)
  have b: "present Class (builder_class ''draggable'') \<and> Class \<noteq> Element"
    and b': "cache_element (builder_class ''draggable'') = []"
    by (simp_all add: builder_defs truthy_defs)
  from a a' element_rejected [of Id ?s "''x''"]
  have "Selector_element ''x'' ?s = (Inl DuplicateKindError, ?s)" by simp
  moreover from b b' element_rejected [of Class "builder_class ''draggable''" "''td''"]
  have "Selector_element ''td'' (builder_class ''draggable'')
     = (Inl OrderError, builder_class ''draggable'')" by simp
  ultimately show ?thesis using a b by blast
qed

subsection \<open>The text of a simple selector\<close>

lemma values_of_snoc:
  "values_of j (fs @ [(k, v)]) = (if k = j then values_of j fs @ [v] else values_of j fs)"
  by (simp add: values_of_def)

lemma prefixed_Nil: "prefixed p [] = []"
  by (simp add: prefixed_def)

lemma tracks_create: "tracks [(k, v)] (create k v)"
  by (cases k) (simp_all add: tracks_def values_of_def builder_defs prefixed_Nil)

lemma tracks_call:
  assumes "tracks fs this" and "call k v this = (Inr u, this')"
  shows "tracks (fs @ [(k, v)]) this'"
proof (cases k)
  case Element
  with assms(2) show ?thesis by (simp add: Selector_element_def split: if_splits)
next
  case Id
  with assms(2) have "cache_id this = []" and "this' = this\<lparr>cache_id := v\<rparr>"
    by (auto simp: Selector_id_def truthy_def split: if_splits)
  moreover from this assms(1) have "concat (map (prefixed ''#'') (values_of Id fs)) = []"
    unfolding tracks_def by (simp add: prefixed_Nil)
  ultimately show ?thesis
    using assms(1) Id unfolding tracks_def by (simp add: values_of_snoc)
next
  case Class
  with assms(2) have "this' = this\<lparr>cache_className := cache_className this @ [v]\<rparr>"
    by (auto simp: Selector_class_def split: if_splits)
  with assms(1) Class show ?thesis
    unfolding tracks_def by (simp add: values_of_snoc)
next
  case Attribute
  with assms(2) have "this' = this\<lparr>cache_attribute := cache_attribute this @ [v]\<rparr>"
    by (auto simp: Selector_attr_def split: if_splits)
  with assms(1) Attribute show ?thesis
    unfolding tracks_def by (simp add: values_of_snoc)
next
  case PseudoClass
  with assms(2) have "this' = this\<lparr>cache_pseudoClass := cache_pseudoClass this @ [v]\<rparr>"
    by (auto simp: Selector_pseudoClass_def split: if_splits)
  with assms(1) PseudoClass show ?thesis
    unfolding tracks_def by (simp add: values_of_snoc)
next
  case PseudoElement
  with assms(2) have "cache_pseudoElement this = []"
    and "this' = this\<lparr>cache_pseudoElement := v\<rparr>"
    by (auto simp: Selector_pseudoElement_def truthy_def split: if_splits)
  moreover from this assms(1)
  have "concat (map (prefixed ''::'') (values_of PseudoElement fs)) = []"
    unfolding tracks_def by (simp add: prefixed_Nil)
  ultimately show ?thesis
    using assms(1) PseudoElement unfolding tracks_def by (simp add: values_of_snoc)
qed

lemma chain_tracks:
  "tracks pre this \<Longrightarrow> call_chain fs this = (Inr u, this') \<Longrightarrow> tracks (pre @ fs) this'"
proof (induction fs arbitrary: pre this)
  case Nil
  then show ?case by simp
next
  case (Cons f rest)
  obtain k v where f: "f = (k, v)" by (cases f)
  obtain r t where c: "call k v this = (r, t)" by (cases "call k v this")
  show ?case
  proof (cases r)
    case (Inl e)
    with Cons.prems f c show ?thesis by simp
  next
    case (Inr w)
    with c Cons.prems(1) have "tracks (pre @ [(k, v)]) t" by (simp add: tracks_call)
    moreover from Inr c f Cons.prems(2) have "call_chain rest t = (Inr u, this')" by simp
    ultimately have "tracks ((pre @ [(k, v)]) @ rest) this'" by (rule Cons.IH)
    with f show ?thesis by simp
  qed
qed

lemma Selector_stringify_prefixed:
  "Selector_stringify this =
     (Inr (cache_element this @ prefixed ''#'' (cache_id this) @
           concat (map (\<lambda>v. ''.'' @ v) (cache_className this)) @
           concat (map (\<lambda>v. ''['' @ v @ '']'') (cache_attribute this)) @
           concat (map (\<lambda>v. '':'' @ v) (cache_pseudoClass this)) @
           prefixed ''::'' (cache_pseudoElement this)), this)"
  by (simp add: Selector_stringify_def prefixed_def truthy_def join_empty_def Let_def)

lemma tracks_stringify:
  "tracks fs this \<Longrightarrow> Selector_stringify this = (Inr (concatenation fs), this)"
  unfolding tracks_def concatenation_def Selector_stringify_prefixed by simp

lemma prefixed_eq_Nil: "prefixed p v = [] \<longleftrightarrow> v = []"
  by (simp add: prefixed_def)

lemma tracks_present:
  assumes "tracks pre this" and "present j this"
  shows "values_of j pre \<noteq> []"
proof
  assume e: "values_of j pre = []"
  show False
  proof (cases j)
    case Element
    with assms e show ?thesis unfolding tracks_def by (simp add: truthy_def)
  next
    case Id
    with assms(1) e have "prefixed ''#'' (cache_id this) = []" unfolding tracks_def by simp
    with assms(2) Id show ?thesis by (simp add: prefixed_eq_Nil truthy_def)
  next
    case Class
    with assms e show ?thesis unfolding tracks_def by (simp add: truthy_length_def)
  next
    case Attribute
    with assms e show ?thesis unfolding tracks_def by (simp add: truthy_length_def)
  next
    case PseudoClass
    with assms e show ?thesis unfolding tracks_def by (simp add: truthy_length_def)
  next
    case PseudoElement
    with assms(1) e have "prefixed ''::'' (cache_pseudoElement this) = []"
      unfolding tracks_def by simp
    with assms(2) PseudoElement show ?thesis by (simp add: prefixed_eq_Nil truthy_def)
  qed
qed

lemma values_of_mem: "values_of j pre \<noteq> [] \<Longrightarrow> \<exists>x\<in>set pre. fst x = j"
  by (auto simp: values_of_def filter_empty_conv)

lemma values_of_append: "values_of j (xs @ ys) = values_of j xs @ values_of j ys"
  by (simp add: values_of_def)

lemma values_of_Cons_same: "values_of k ((k, v) # rest) = v # values_of k rest"
  by (simp add: values_of_def)

lemma valid_order_next:
  assumes "valid_order (pre @ (k, v) # rest)" and "pre \<noteq> []"
  shows "k \<noteq> Element"
    and "\<And>j. values_of j pre \<noteq> [] \<Longrightarrow> category_index j \<le> category_index k"
    and "singleton_slot k \<Longrightarrow> values_of k pre = []"
proof -
  from assms(1) have le: "\<And>x. x \<in> set pre \<Longrightarrow> category_index (fst x) \<le> category_index k"
    by (auto simp: valid_order_def sorted_append)
  show order: "category_index j \<le> category_index k" if "values_of j pre \<noteq> []" for j
    using values_of_mem [OF that] le by auto
  have once: "length (values_of k pre) + 1 \<le> 1" if "singleton_slot k"
    using that assms(1)
    by (cases k) (simp_all add: valid_order_def values_of_append values_of_Cons_same)
  then show single: "values_of k pre = []" if "singleton_slot k"
    using that by simp
  show "k \<noteq> Element"
  proof
    assume k: "k = Element"
    from assms(2) obtain x where x: "x \<in> set pre" by (cases pre) auto
    with le k have "category_index (fst x) = 0" by fastforce
    then have "fst x = Element" by (cases "fst x") simp_all
    with x have "values_of Element pre \<noteq> []"
      by (auto simp: values_of_def filter_empty_conv)
    with single k show False by simp
  qed
qed

lemma chain_valid:
  "tracks pre this \<Longrightarrow> pre \<noteq> [] \<Longrightarrow> valid_order (pre @ fs) \<Longrightarrow>
   \<exists>this'. call_chain fs this = (Inr (), this')"
proof (induction fs arbitrary: pre this)
  case Nil
  then show ?case by simp
next
  case (Cons f rest)
  obtain k v where f: "f = (k, v)" by (cases f)
  with Cons.prems have vo: "valid_order (pre @ (k, v) # rest)" by simp
  note nx = valid_order_next [OF vo Cons.prems(2)]
  have "call k v this = (Inr (), store k v this)"
  proof (rule call_succeeds)
    show "k \<noteq> Element" by (rule nx(1))
    show "category_index j \<le> category_index k" if "present j this" for j
      using nx(2) tracks_present [OF Cons.prems(1) that] by blast
    show "\<not> (singleton_slot k \<and> present k this)"
      using nx(3) tracks_present [OF Cons.prems(1), of k] by blast
  qed
  moreover from this Cons.prems(1) have "tracks (pre @ [(k, v)]) (store k v this)"
    by (rule tracks_call [rotated])
  moreover have "pre @ [(k, v)] \<noteq> []" by simp
  moreover from vo have "valid_order ((pre @ [(k, v)]) @ rest)" by simp
  ultimately obtain this' where "call_chain rest (store k v this) = (Inr (), this')"
    using Cons.IH by blast
  with \<open>call k v this = (Inr (), store k v this)\<close> f show ?case by simp
qed

text \<open>
  C1. For every selector built by a valid sequence of fragment calls (category indices
  never decreasing, each singleton category at most once; the first fragment through the
  facade, the others through the methods), the construction succeeds and \<open>stringify()\<close>
  returns exactly the concatenation: the element value if set, then \<open>#\<close> and the id if
  set, then \<open>.\<close> and each class name in insertion order, then each attribute in brackets
  in insertion order, then \<open>:\<close> and each pseudo-class in insertion order, then \<open>::\<close> and
  the pseudo-element if set; no fragment is lost or reordered. The same text comes out of
  every construction the methods accept. A selector with no fragment present stringifies
  to the empty string.
\<close>

theorem stringify_concatenation:
  "(valid_order fs \<and> fs \<noteq> [] \<longrightarrow>
      (\<exists>this. build fs = Some (Inr (), this) \<and>
         stringify (SelectorNode this) = (Inr (concatenation fs), SelectorNode this))) \<and>
   (build fs = Some (Inr (), this) \<longrightarrow>
      stringify (SelectorNode this) = (Inr (concatenation fs), SelectorNode this)) \<and>
   ((\<forall>k. \<not> present k this) \<longrightarrow>
      stringify (SelectorNode this) = (Inr [], SelectorNode this))"
proof (intro conjI impI)
  show built: "stringify (SelectorNode this) = (Inr (concatenation fs), SelectorNode this)"
    if b: "build fs = Some (Inr (), this)" for this
  proof (cases fs)
    case Nil
    with b show ?thesis by simp
  next
    case (Cons f rest)
    obtain k v where f: "f = (k, v)" by (cases f)
    with b Cons have "call_chain rest (create k v) = (Inr (), this)" by simp
    with tracks_create have "tracks ([(k, v)] @ rest) this" by (rule chain_tracks)
    with Cons f have "tracks fs this" by simp
    then show ?thesis by (simp add: tracks_stringify)
  qed
  show "\<exists>this. build fs = Some (Inr (), this) \<and>
         stringify (SelectorNode this) = (Inr (concatenation fs), SelectorNode this)"
    if v: "valid_order fs \<and> fs \<noteq> []"
  proof -
    from v obtain k v rest where fs: "fs = (k, v) # rest"
      by (cases fs) auto
    with v have "valid_order ([(k, v)] @ rest)" by simp
    with tracks_create [of k v] obtain this' where "call_chain rest (create k v) = (Inr (), this')"
      using chain_valid [of "[(k, v)]" "create k v" rest] by blast
    with fs have "build fs = Some (Inr (), this')" by simp
    with built show ?thesis by blast
  qed
  show "stringify (SelectorNode this) = (Inr [], SelectorNode this)"
    if none: "\<forall>k. \<not> present k this"
  proof -
    from none have "\<not> present Element this" "\<not> present Id this" "\<not> present Class this"
      "\<not> present Attribute this" "\<not> present PseudoClass this" "\<not> present PseudoElement this"
      by blast+
    then show ?thesis
      by (simp add: Selector_stringify_prefixed truthy_defs prefixed_Nil)
  qed
qed

theorem stringify_concatenation_witness:
  "valid_order [(Id, ''main''), (Class, ''container''), (Class, ''editable'')] \<and>
   (\<exists>this. build [(Id, ''main''), (Class, ''container''), (Class, ''editable'')]
        = Some (Inr (), this) \<and>
      stringify (SelectorNode this) = (Inr ''#main.container.editable'', SelectorNode this)) \<and>
   build [(PseudoElement, []), (Class, ''c''), (PseudoElement, ''after'')]
     = Some (Inr (), (builder_class ''c'')\<lparr>cache_pseudoElement := ''after''\<rparr>) \<and>
   fst (stringify (SelectorNode ((builder_class ''c'')\<lparr>cache_pseudoElement := ''after''\<rparr>)))
     = Inr ''.c::after'' \<and>
   (\<forall>k. \<not> present k (builder_id [])) \<and>
   stringify (SelectorNode (builder_id [])) = (Inr [], SelectorNode (builder_id []))"
proof -
  let ?fs = "[(Id, ''main''), (Class, ''container''), (Class, ''editable'')]"
  let ?gs = "[(PseudoElement, []), (Class, ''c''), (PseudoElement, ''after'')]"
  let ?g = "(builder_class ''c'')\<lparr>cache_pseudoElement := ''after''\<rparr>"
  have v: "valid_order ?fs \<and> ?fs \<noteq> []"
    by (simp add: valid_order_def values_of_def)
  have c: "concatenation ?fs = ''#main.container.editable''"
    by (simp add: concatenation_def values_of_def prefixed_def)
  from v stringify_concatenation [of ?fs] obtain this where
    "build ?fs = Some (Inr (), this) \<and>
     stringify (SelectorNode this) = (Inr (concatenation ?fs), SelectorNode this)"
    by blast
  with c have first: "\<exists>this. build ?fs = Some (Inr (), this) \<and>
      stringify (SelectorNode this) = (Inr ''#main.container.editable'', SelectorNode this)"
    by auto
  have g: "build ?gs = Some (Inr (), ?g)"
    by (simp add: method_defs builder_defs truthy_defs)
  have cg: "concatenation ?gs = ''.c::after''"
    by (simp add: concatenation_def values_of_def prefixed_def)
  from g stringify_concatenation [of ?gs ?g]
  have "stringify (SelectorNode ?g) = (Inr (concatenation ?gs), SelectorNode ?g)"
    by blast
  with cg have second: "fst (stringify (SelectorNode ?g)) = Inr ''.c::after''"
    by simp
  have none: "\<forall>k. \<not> present k (builder_id [])"
  proof
    fix k show "\<not> present k (builder_id [])"
      by (cases k) (simp_all add: builder_defs truthy_defs)
  qed
  with stringify_concatenation [of _ "builder_id []"]
  have "stringify (SelectorNode (builder_id [])) = (Inr [], SelectorNode (builder_id []))"
    by blast
  with v first g second none show ?thesis by blast
qed

subsection \<open>The documented examples\<close>

lemma documented_simple_examples:
  "\<exists>a. build [(Id, ''main''), (Class, ''container''), (Class, ''editable'')] = Some (Inr (), a) \<and>
     fst (stringify (SelectorNode a)) = Inr ''#main.container.editable''"
  "\<exists>b. build [(Element, ''a''), (Attribute, ''href$=\".png\"''), (PseudoClass, ''focus'')]
       = Some (Inr (), b) \<and>
     fst (stringify (SelectorNode b)) = Inr ''a[href$=\".png\"]:focus''"
  by (simp_all add: method_defs builder_defs truthy_defs Selector_stringify_prefixed prefixed_def)

lemma documented_combine_example:
  "fst (stringify
     (builder_combine
        (SelectorNode (snd (call_chain [(Id, ''main''), (Class, ''container''), (Class, ''draggable'')]
           (builder_element ''div''))))
        ''+''
        (builder_combine
           (SelectorNode (snd (call_chain [(Id, ''data'')] (builder_element ''table''))))
           ''~''
           (builder_combine
              (SelectorNode (snd (call_chain [(PseudoClass, ''nth-of-type(even)'')] (builder_element ''tr''))))
              '' ''
              (SelectorNode (snd (call_chain [(PseudoClass, ''nth-of-type(even)'')] (builder_element ''td''))))))))
   = Inr ''div#main.container.draggable + table#data ~ tr:nth-of-type(even)   td:nth-of-type(even)''"
  by (simp add: method_defs builder_defs truthy_defs Selector_stringify_prefixed prefixed_def
      builder_combine_def)

end
